theory Spec2Isabelle
  imports Complex_Main
begin

section \<open>Range queries of cyaron (\<open>cyaron/query.py\<close>)\<close>

text \<open>
  The module generates random multi-dimensional range queries \<open>(L, R, W)\<close>. Everything
  the Python does beyond returning a value is explicit here: the process-wide random
  source is a state that every draw threads through, an exception is a value of the
  type \<open>error\<close> returned together with the state the random source has at the moment
  of the raise, and a call that never returns (the redraw loop of the small-query
  branch) has the value \<open>None\<close>.
\<close>

subsection \<open>Data\<close>

text \<open>\<open>class RangeQueryRandomMode(IntEnum)\<close>: \<open>LESS = 0\<close>, \<open>ALLOW_EQUAL = 1\<close>.\<close>

datatype RangeQueryRandomMode = LESS | ALLOW_EQUAL

text \<open>
  The exceptions that the code of \<open>get_one_query\<close> can meet: its two \<open>ValueError\<close>s
  (lines 206 to 213), the \<open>ValueError\<close> of \<open>random.randint\<close> on an empty range, and the
  \<open>IndexError\<close> of \<open>cur_range[0]\<close> on an empty sequence and of \<open>result[item]\<close>.
\<close>

datatype value_error = UpperBelowLower | LessModeEqualBounds | EmptyRandrange

datatype error = ValueError value_error | IndexError

text \<open>The spec's single error kind \<open>InvalidRange\<close>: the two errors of the validation.\<close>

definition InvalidRange :: "error \<Rightarrow> bool" where
  "InvalidRange e = (e = ValueError UpperBelowLower \<or> e = ValueError LessModeEqualBounds)"

text \<open>
  One element of \<open>position_range\<close>: an integer, or a sequence of integers (a tuple or a
  list), which the code inspects with \<open>isinstance(pr, int)\<close> and \<open>len(pr)\<close>.
\<close>

datatype bound = BInt int | BSeq "int list"

text \<open>A query \<open>(query_l, query_r, w)\<close>; the weight is a tuple of components, \<open>()\<close> is \<open>[]\<close>.\<close>

type_synonym 'w query = "int list \<times> int list \<times> 'w list"

subsection \<open>The random source\<close>

text \<open>
  Python's \<open>random\<close> module is not part of the repository, so the two functions the code
  calls are parameters: \<open>random.random()\<close> and the draw of \<open>random.randint(a, b)\<close> on a
  non-empty range. Both read the state \<open>'g\<close> of the source and return the new one.
\<close>

record 'g random_source =
  random_random :: "'g \<Rightarrow> real \<times> 'g"
  random_draw :: "int \<Rightarrow> int \<Rightarrow> 'g \<Rightarrow> int \<times> 'g"

text \<open>The contract of \<open>randint\<close>: a draw from \<open>[a, b]\<close> lies in \<open>[a, b]\<close>.\<close>

definition randint_in_range :: "'g random_source \<Rightarrow> bool" where
  "randint_in_range S =
     (\<forall>a b g. a \<le> b \<longrightarrow> a \<le> fst (random_draw S a b g) \<and> fst (random_draw S a b g) \<le> b)"

text \<open>\<open>random.randint(a, b)\<close>: raises \<open>ValueError\<close> on an empty range, before drawing.\<close>

definition randint :: "'g random_source \<Rightarrow> int \<Rightarrow> int \<Rightarrow> 'g \<Rightarrow> (error + int) \<times> 'g" where
  "randint S a b g =
     (if a > b then (Inl (ValueError EmptyRandrange), g)
      else (Inr (fst (random_draw S a b g)), snd (random_draw S a b g)))"

subsection \<open>\<open>get_one_query\<close>\<close>

text \<open>
  Lines 198 to 204, with the two reads \<open>cur_range[0]\<close> and \<open>cur_range[1]\<close> of line 206: a
  sequence of two or more elements is used as it is (only its first two elements are
  ever read), the empty sequence makes \<open>cur_range[0]\<close> raise.
\<close>

fun cur_range :: "bound \<Rightarrow> error + int \<times> int" where
  "cur_range (BInt pr) = Inr (1, pr)"
| "cur_range (BSeq []) = Inl IndexError"
| "cur_range (BSeq [x]) = Inr (1, x)"
| "cur_range (BSeq (x # y # zs)) = Inr (x, y)"

text \<open>Lines 206 to 213: the error the validation raises, if any.\<close>

definition validate :: "RangeQueryRandomMode \<Rightarrow> int \<times> int \<Rightarrow> error option" where
  "validate mode cr =
     (if fst cr > snd cr then Some (ValueError UpperBelowLower)
      else if mode = LESS \<and> fst cr = snd cr then Some (ValueError LessModeEqualBounds)
      else None)"

text \<open>Lines 217 to 222, the big-query branch.\<close>

definition big_query_branch ::
  "'g random_source \<Rightarrow> RangeQueryRandomMode \<Rightarrow> int \<times> int \<Rightarrow> 'g \<Rightarrow> (error + int \<times> int) \<times> 'g" where
  "big_query_branch S mode cr g =
     (let cur_l = snd cr - fst cr + 1;
          lb = max (if mode = LESS then 2 else 1) (cur_l div 2)
      in case randint S lb cur_l g of
           (Inl e, g1) \<Rightarrow> (Inl e, g1)
         | (Inr ql, g1) \<Rightarrow>
             (case randint S (fst cr) (snd cr - ql + 1) g1 of
                (Inl e, g2) \<Rightarrow> (Inl e, g2)
              | (Inr l, g2) \<Rightarrow> (Inr (l, l + ql - 1), g2)))"

text \<open>
  Lines 228 to 230, the redraw loop. It may run forever, so it is a partial function:
  \<open>None\<close> is the call that never returns.
\<close>

partial_function (option) redraw_loop ::
  "'g random_source \<Rightarrow> RangeQueryRandomMode \<Rightarrow> int \<times> int \<Rightarrow> int \<Rightarrow> int \<Rightarrow> 'g
     \<Rightarrow> ((error + int \<times> int) \<times> 'g) option" where
  "redraw_loop S mode cr l r g =
     (if mode = LESS \<and> l = r then
        (case randint S (fst cr) (snd cr) g of
           (Inl e, g1) \<Rightarrow> Some (Inl e, g1)
         | (Inr l', g1) \<Rightarrow>
             (case randint S (fst cr) (snd cr) g1 of
                (Inl e, g2) \<Rightarrow> Some (Inl e, g2)
              | (Inr r', g2) \<Rightarrow> redraw_loop S mode cr l' r' g2))
      else Some (Inr (l, r), g))"

declare redraw_loop.simps [code]

text \<open>Lines 224 to 232, the small-query branch.\<close>

definition small_query_branch ::
  "'g random_source \<Rightarrow> RangeQueryRandomMode \<Rightarrow> int \<times> int \<Rightarrow> 'g
     \<Rightarrow> ((error + int \<times> int) \<times> 'g) option" where
  "small_query_branch S mode cr g =
     (case randint S (fst cr) (snd cr) g of
        (Inl e, g1) \<Rightarrow> Some (Inl e, g1)
      | (Inr l, g1) \<Rightarrow>
          (case randint S (fst cr) (snd cr) g1 of
             (Inl e, g2) \<Rightarrow> Some (Inl e, g2)
           | (Inr r, g2) \<Rightarrow>
               (case redraw_loop S mode cr l r g2 of
                  None \<Rightarrow> None
                | Some (Inl e, g3) \<Rightarrow> Some (Inl e, g3)
                | Some (Inr (l', r'), g3) \<Rightarrow>
                    (if l' > r' then Some (Inr (r', l'), g3) else Some (Inr (l', r'), g3)))))"

text \<open>Lines 215 to 232: the draw of \<open>random.random()\<close> chooses the branch.\<close>

definition sample_dimension ::
  "'g random_source \<Rightarrow> RangeQueryRandomMode \<Rightarrow> real \<Rightarrow> int \<times> int \<Rightarrow> 'g
     \<Rightarrow> ((error + int \<times> int) \<times> 'g) option" where
  "sample_dimension S mode big_query cr g =
     (if fst (random_random S g) < big_query
      then Some (big_query_branch S mode cr (snd (random_random S g)))
      else small_query_branch S mode cr (snd (random_random S g)))"

text \<open>
  Lines 196 to 235, the loop over the dimensions: \<open>prs\<close> are the elements of
  \<open>position_range\<close> still to visit, \<open>query_l\<close> and \<open>query_r\<close> the lists built so far.
\<close>

fun dimension_loop ::
  "'g random_source \<Rightarrow> RangeQueryRandomMode \<Rightarrow> real \<Rightarrow> bound list \<Rightarrow> int list \<Rightarrow> int list \<Rightarrow> 'g
     \<Rightarrow> ((error + int list \<times> int list) \<times> 'g) option" where
  "dimension_loop S mode big_query [] query_l query_r g = Some (Inr (query_l, query_r), g)"
| "dimension_loop S mode big_query (pr # prs) query_l query_r g =
     (case cur_range pr of
        Inl e \<Rightarrow> Some (Inl e, g)
      | Inr cr \<Rightarrow>
          (case validate mode cr of
             Some e \<Rightarrow> Some (Inl e, g)
           | None \<Rightarrow>
               (case sample_dimension S mode big_query cr g of
                  None \<Rightarrow> None
                | Some (Inl e, g1) \<Rightarrow> Some (Inl e, g1)
                | Some (Inr (l, r), g1) \<Rightarrow>
                    dimension_loop S mode big_query prs (query_l @ [l]) (query_r @ [r]) g1)))"

text \<open>Lines 190 to 191: the default of \<open>position_range\<close>.\<close>

definition default_position_range :: "bound list option \<Rightarrow> bound list" where
  "default_position_range position_range =
     (case position_range of None \<Rightarrow> [BInt 10] | Some prs \<Rightarrow> prs)"

text \<open>\<open>RangeQuery.get_one_query\<close>, lines 161 to 238.\<close>

definition get_one_query ::
  "'g random_source \<Rightarrow> bound list option \<Rightarrow> real \<Rightarrow> RangeQueryRandomMode
     \<Rightarrow> (int \<Rightarrow> int list \<Rightarrow> int list \<Rightarrow> 'w list) option \<Rightarrow> int \<Rightarrow> 'g
     \<Rightarrow> ((error + 'w query) \<times> 'g) option" where
  "get_one_query S position_range big_query mode weight_generator index g =
     (case dimension_loop S mode big_query (default_position_range position_range) [] [] g of
        None \<Rightarrow> None
      | Some (Inl e, g1) \<Rightarrow> Some (Inl e, g1)
      | Some (Inr (query_l, query_r), g1) \<Rightarrow>
          (case weight_generator of
             None \<Rightarrow> Some (Inr (query_l, query_r, []), g1)
           | Some wg \<Rightarrow> Some (Inr (query_l, query_r, wg index query_l query_r), g1)))"

subsection \<open>\<open>RangeQuery.random\<close>\<close>

text \<open>
  Lines 127 to 133: the loop \<open>for i in range(num)\<close> over the indices still to visit,
  with \<open>ret\<close> the list \<open>ret.result\<close> built so far.
\<close>

fun random_loop ::
  "'g random_source \<Rightarrow> bound list option \<Rightarrow> RangeQueryRandomMode
     \<Rightarrow> (int \<Rightarrow> int list \<Rightarrow> int list \<Rightarrow> 'w list) option \<Rightarrow> real \<Rightarrow> int list \<Rightarrow> 'w query list \<Rightarrow> 'g
     \<Rightarrow> ((error + 'w query list) \<times> 'g) option" where
  "random_loop S position_range mode weight_generator big_query [] ret g = Some (Inr ret, g)"
| "random_loop S position_range mode weight_generator big_query (i # is) ret g =
     (case get_one_query S position_range big_query mode weight_generator (i + 1) g of
        None \<Rightarrow> None
      | Some (Inl e, g1) \<Rightarrow> Some (Inl e, g1)
      | Some (Inr q, g1) \<Rightarrow>
          random_loop S position_range mode weight_generator big_query is (ret @ [q]) g1)"

text \<open>\<open>range(num)\<close>: the integers from 0 to \<open>num - 1\<close>, none when \<open>num \<le> 0\<close>.\<close>

definition range_py :: "int \<Rightarrow> int list" where
  "range_py num = [0..num - 1]"

definition RangeQuery_random ::
  "'g random_source \<Rightarrow> int \<Rightarrow> bound list option \<Rightarrow> RangeQueryRandomMode
     \<Rightarrow> (int \<Rightarrow> int list \<Rightarrow> int list \<Rightarrow> 'w list) option \<Rightarrow> real \<Rightarrow> 'g
     \<Rightarrow> ((error + 'w query list) \<times> 'g) option" where
  "RangeQuery_random S num position_range mode weight_generator big_query g =
     random_loop S position_range mode weight_generator big_query (range_py num) [] g"

subsection \<open>The sequence interface and \<open>to_str\<close>\<close>

text \<open>
  \<open>__getitem__\<close> (line 53) hands its argument to the list \<open>self.result\<close>. An integer
  index counts from the end when negative and raises \<open>IndexError\<close> out of range.
\<close>

definition getitem_int :: "'a list \<Rightarrow> int \<Rightarrow> error + 'a" where
  "getitem_int result item =
     (if 0 \<le> item \<and> item < int (length result) then Inr (result ! nat item)
      else if - int (length result) \<le> item \<and> item < 0
        then Inr (result ! nat (item + int (length result)))
      else Inl IndexError)"

text \<open>
  A slice \<open>result[start:stop]\<close> (step 1): an absent end is the end of the list, a
  negative one counts from the end, and both are clipped to the list.
\<close>

definition slice_bound :: "nat \<Rightarrow> int option \<Rightarrow> nat \<Rightarrow> nat" where
  "slice_bound n b dflt =
     (case b of
        None \<Rightarrow> dflt
      | Some i \<Rightarrow> (if i < 0 then nat (max 0 (i + int n)) else min (nat i) n))"

definition getitem_slice :: "'a list \<Rightarrow> int option \<Rightarrow> int option \<Rightarrow> 'a list" where
  "getitem_slice result start stop =
     (let n = length result;
          lo = slice_bound n start 0;
          hi = slice_bound n stop n
      in take (hi - lo) (drop lo result))"

text \<open>\<open>sep.join(xs)\<close> of Python.\<close>

fun join :: "string \<Rightarrow> string list \<Rightarrow> string" where
  "join sep [] = []"
| "join sep [x] = x"
| "join sep (x # y # ys) = x @ sep @ join sep (y # ys)"

text \<open>\<open>str(x)\<close> of an integer: its decimal digits, after a minus sign when negative.\<close>

fun str_nat :: "nat \<Rightarrow> string" where
  "str_nat n =
     (if n < 10 then [''0123456789'' ! n]
      else str_nat (n div 10) @ [''0123456789'' ! (n mod 10)])"

declare str_nat.simps [simp del]

definition str_int :: "int \<Rightarrow> string" where
  "str_int x = (if x < 0 then CHR ''-'' # str_nat (nat (- x)) else str_nat (nat x))"

text \<open>
  Lines 67 to 75, the loop of \<open>to_str\<close> over \<open>self.result\<close>, with \<open>res\<close> the string built
  so far; \<open>str_w\<close> is \<open>str\<close> on the components of a weight.
\<close>

fun to_str_loop :: "('w \<Rightarrow> string) \<Rightarrow> 'w query list \<Rightarrow> string \<Rightarrow> string" where
  "to_str_loop str_w [] res = res"
| "to_str_loop str_w ((l, r, w) # result) res =
     (let l_to_str = map str_int l;
          r_to_str = map str_int r;
          w_to_str = map str_w w;
          res1 = res @ join '' '' l_to_str @ '' '' @ join '' '' r_to_str;
          res2 = (if length w_to_str > 0 then res1 @ '' '' @ join '' '' w_to_str else res1)
      in to_str_loop str_w result (res2 @ [CHR 0x0A]))"

text \<open>Line 76: \<open>res[:-1]\<close> drops the last character, and is empty on the empty string.\<close>

definition to_str :: "('w \<Rightarrow> string) \<Rightarrow> 'w query list \<Rightarrow> string" where
  "to_str str_w result = butlast (to_str_loop str_w result [])"

subsection \<open>The properties the specification states\<close>

text \<open>
  The validity of a query against the bounds it was generated from, in the words of
  the specification: \<open>L\<close> and \<open>R\<close> have one entry per bound, and in each dimension
  \<open>lo \<le> L[i] \<le> R[i] \<le> hi\<close>, with \<open>L[i] \<noteq> R[i]\<close> under \<open>LESS\<close>.
\<close>

definition dim_ok :: "RangeQueryRandomMode \<Rightarrow> int \<times> int \<Rightarrow> int \<Rightarrow> int \<Rightarrow> bool" where
  "dim_ok mode cr l r = (fst cr \<le> l \<and> l \<le> r \<and> r \<le> snd cr \<and> (mode = LESS \<longrightarrow> l \<noteq> r))"

definition dimension_valid :: "RangeQueryRandomMode \<Rightarrow> bound \<Rightarrow> int \<Rightarrow> int \<Rightarrow> bool" where
  "dimension_valid mode pr l r =
     (case cur_range pr of Inl e \<Rightarrow> False | Inr cr \<Rightarrow> dim_ok mode cr l r)"

definition query_valid :: "RangeQueryRandomMode \<Rightarrow> bound list \<Rightarrow> 'w query \<Rightarrow> bool" where
  "query_valid mode prs q =
     (length (fst q) = length prs \<and> length (fst (snd q)) = length prs \<and>
      (\<forall>i < length prs. dimension_valid mode (prs ! i) (fst q ! i) (fst (snd q) ! i)))"

text \<open>
  The two conditions of the specification's \<open>InvalidRange\<close> on a dimension with normalised
  bounds \<open>(lo, hi)\<close>: \<open>lo > hi\<close>, or \<open>lo = hi\<close> under \<open>LESS\<close>.
\<close>

definition invalid_dimension :: "RangeQueryRandomMode \<Rightarrow> bound \<Rightarrow> bool" where
  "invalid_dimension mode pr =
     (case cur_range pr of
        Inl e \<Rightarrow> False
      | Inr cr \<Rightarrow> fst cr > snd cr \<or> (mode = LESS \<and> fst cr = snd cr))"

text \<open>
  A bound of a shape the specification admits, an integer or a sequence with at least
  one element: the bounds on which the reads \<open>cur_range[0]\<close>, \<open>cur_range[1]\<close> succeed.
\<close>

definition well_shaped :: "bound \<Rightarrow> bool" where
  "well_shaped pr = (pr \<noteq> BSeq [])"

text \<open>
  The rendering in the words of the specification: one line per query, the lines
  joined by newlines; a line is the values of \<open>L\<close>, a space, the values of \<open>R\<close> and, only
  for a non-empty weight, a space and the components of the weight.
\<close>

definition render_line :: "('w \<Rightarrow> string) \<Rightarrow> 'w query \<Rightarrow> string" where
  "render_line str_w q =
     join '' '' (map str_int (fst q)) @ '' '' @ join '' '' (map str_int (fst (snd q))) @
     (if snd (snd q) = [] then [] else '' '' @ join '' '' (map str_w (snd (snd q))))"

definition to_str_spec :: "('w \<Rightarrow> string) \<Rightarrow> 'w query list \<Rightarrow> string" where
  "to_str_spec str_w result = join [CHR 0x0A] (map (render_line str_w) result)"

text \<open>
  The normalisation of a bound in the words of the specification: an integer \<open>U\<close>
  becomes \<open>(1, U)\<close>, a one-element bound \<open>(x,)\<close> becomes \<open>(1, x)\<close>, a pair stays.
\<close>

fun normalize_spec :: "bound \<Rightarrow> bound" where
  "normalize_spec (BInt U) = BSeq [1, U]"
| "normalize_spec (BSeq [x]) = BSeq [1, x]"
| "normalize_spec pr = pr"

subsection \<open>A random source to run the code on\<close>

text \<open>
  A counter as the state of the source: \<open>random()\<close> alternates between \<open>0\<close> and \<open>1/2\<close>,
  and draw number \<open>n\<close> from \<open>[a, b]\<close> is \<open>a + n mod (b - a + 1)\<close>.
\<close>

definition counter_source :: "nat random_source" where
  "counter_source =
     \<lparr> random_random = (\<lambda>n. (if even n then 0 else 1 / 2, Suc n)),
       random_draw = (\<lambda>a b n. (a + int n mod (b - a + 1), Suc n)) \<rparr>"

text \<open>A weight generator to run the code on: the index of the query and a checksum.\<close>

definition index_and_sum :: "int \<Rightarrow> int list \<Rightarrow> int list \<Rightarrow> int list" where
  "index_and_sum i l r = [i, sum_list l + sum_list r]"

text \<open>
  Two more sources, for the redraw loop. On the first, three draws in a row are equal, so
  the loop runs once more before two draws differ; the second draws the lower end every
  time, and \<open>random()\<close> is \<open>1/2\<close> on both, so every dimension takes the small-query branch.
\<close>

definition slow_source :: "nat random_source" where
  "slow_source =
     \<lparr> random_random = (\<lambda>n. (1 / 2, Suc n)),
       random_draw = (\<lambda>a b n. (a + int (n div 3) mod (b - a + 1), Suc n)) \<rparr>"

definition stuck_source :: "unit random_source" where
  "stuck_source = \<lparr> random_random = (\<lambda>g. (1 / 2, g)), random_draw = (\<lambda>a b g. (a, g)) \<rparr>"

section \<open>Proofs\<close>

subsection \<open>Draws and the validation\<close>

lemma randint_Inl:
  "randint S a b g = (Inl e, g') \<Longrightarrow> b < a \<and> e = ValueError EmptyRandrange \<and> g' = g"
  by (auto simp: randint_def split: if_splits)

lemma randint_Inr:
  "randint_in_range S \<Longrightarrow> randint S a b g = (Inr x, g') \<Longrightarrow> a \<le> x \<and> x \<le> b"
  by (auto simp: randint_def randint_in_range_def split: if_splits)

lemma randint_nonempty:
  "a \<le> b \<Longrightarrow> randint S a b g = (Inr (fst (random_draw S a b g)), snd (random_draw S a b g))"
  by (simp add: randint_def)

lemma validate_None:
  "validate mode cr = None \<longleftrightarrow> fst cr \<le> snd cr \<and> (mode = LESS \<longrightarrow> fst cr < snd cr)"
  by (auto simp: validate_def)

lemma validate_Some_InvalidRange: "validate mode cr = Some e \<Longrightarrow> InvalidRange e"
  by (auto simp: validate_def InvalidRange_def split: if_splits)

lemma big_query_lb:
  assumes "validate mode cr = None"
  shows "max (if mode = LESS then 2 else 1) ((snd cr - fst cr + 1) div 2) \<le> snd cr - fst cr + 1"
  using assms by (auto simp: validate_None)

lemma big_query_branch_eq:
  assumes v: "validate mode cr = None" and S: "randint_in_range S"
  shows "\<exists>ql l g1 g2.
           randint S (max (if mode = LESS then 2 else 1) ((snd cr - fst cr + 1) div 2))
             (snd cr - fst cr + 1) g = (Inr ql, g1) \<and>
           randint S (fst cr) (snd cr - ql + 1) g1 = (Inr l, g2) \<and>
           big_query_branch S mode cr g = (Inr (l, l + ql - 1), g2) \<and>
           max (if mode = LESS then 2 else 1) ((snd cr - fst cr + 1) div 2) \<le> ql \<and>
           ql \<le> snd cr - fst cr + 1 \<and> fst cr \<le> l \<and> l \<le> snd cr - ql + 1"
proof -
  let ?lb = "max (if mode = LESS then 2 else 1) ((snd cr - fst cr + 1) div 2)"
  let ?cur_l = "snd cr - fst cr + 1"
  have lb: "?lb \<le> ?cur_l" using v by (rule big_query_lb)
  define ql where "ql = fst (random_draw S ?lb ?cur_l g)"
  define g1 where "g1 = snd (random_draw S ?lb ?cur_l g)"
  have d1: "randint S ?lb ?cur_l g = (Inr ql, g1)"
    using lb by (simp add: randint_nonempty ql_def g1_def)
  have ql: "?lb \<le> ql \<and> ql \<le> ?cur_l" using randint_Inr [OF S d1] .
  then have ne: "fst cr \<le> snd cr - ql + 1" by linarith
  define l where "l = fst (random_draw S (fst cr) (snd cr - ql + 1) g1)"
  define g2 where "g2 = snd (random_draw S (fst cr) (snd cr - ql + 1) g1)"
  have d2: "randint S (fst cr) (snd cr - ql + 1) g1 = (Inr l, g2)"
    using ne by (simp add: randint_nonempty l_def g2_def)
  have l: "fst cr \<le> l \<and> l \<le> snd cr - ql + 1" using randint_Inr [OF S d2] .
  have "big_query_branch S mode cr g = (Inr (l, l + ql - 1), g2)"
    using d1 d2 by (simp add: big_query_branch_def Let_def)
  with d1 d2 ql l show ?thesis by blast
qed

lemma big_query_branch_ok:
  assumes v: "validate mode cr = None" and S: "randint_in_range S"
  shows "\<exists>l r g'. big_query_branch S mode cr g = (Inr (l, r), g') \<and> dim_ok mode cr l r"
proof -
  from big_query_branch_eq [OF v S, of g] obtain ql l g1 g2 where
    b: "big_query_branch S mode cr g = (Inr (l, l + ql - 1), g2)" and
    q: "max (if mode = LESS then 2 else 1) ((snd cr - fst cr + 1) div 2) \<le> ql"
       "ql \<le> snd cr - fst cr + 1" "fst cr \<le> l" "l \<le> snd cr - ql + 1"
    by blast
  have "dim_ok mode cr l (l + ql - 1)"
    using q by (auto simp: dim_ok_def split: if_splits)
  with b show ?thesis by blast
qed

subsection \<open>Sampling one dimension\<close>

lemma redraw_loop_ok_aux:
  "redraw_loop S mode cr l r g = Some y \<Longrightarrow>
     randint_in_range S \<longrightarrow> validate mode cr = None \<longrightarrow>
     fst cr \<le> l \<longrightarrow> l \<le> snd cr \<longrightarrow> fst cr \<le> r \<longrightarrow> r \<le> snd cr \<longrightarrow>
     (\<exists>l' r'. fst y = Inr (l', r') \<and> fst cr \<le> l' \<and> l' \<le> snd cr \<and> fst cr \<le> r' \<and> r' \<le> snd cr \<and>
        (mode = LESS \<longrightarrow> l' \<noteq> r'))"
proof (induction S mode cr l r g y rule: redraw_loop.raw_induct [rotated 1, consumes 1, case_names step])
  case (step f S mode cr l r g y)
  show ?case
  proof (intro impI)
    assume S: "randint_in_range S" and v: "validate mode cr = None"
      and i: "fst cr \<le> l" "l \<le> snd cr" "fst cr \<le> r" "r \<le> snd cr"
    have ne: "fst cr \<le> snd cr" using v by (simp add: validate_None)
    show "\<exists>l' r'. fst y = Inr (l', r') \<and> fst cr \<le> l' \<and> l' \<le> snd cr \<and> fst cr \<le> r' \<and> r' \<le> snd cr \<and>
        (mode = LESS \<longrightarrow> l' \<noteq> r')"
    proof (cases "mode = LESS \<and> l = r")
      case False
      with step(2) i show ?thesis by auto
    next
      case True
      let ?l' = "fst (random_draw S (fst cr) (snd cr) g)"
      let ?g1 = "snd (random_draw S (fst cr) (snd cr) g)"
      let ?r' = "fst (random_draw S (fst cr) (snd cr) ?g1)"
      let ?g2 = "snd (random_draw S (fst cr) (snd cr) ?g1)"
      have rec: "f S mode cr ?l' ?r' ?g2 = Some y"
        using step(2) True ne by (simp add: randint_nonempty)
      have "fst cr \<le> ?l' \<and> ?l' \<le> snd cr" "fst cr \<le> ?r' \<and> ?r' \<le> snd cr"
        using S ne by (auto simp: randint_in_range_def)
      with step(1) [OF rec] S v show ?thesis by blast
    qed
  qed
qed

lemma redraw_loop_ok:
  assumes "randint_in_range S" "validate mode cr = None"
    "redraw_loop S mode cr l r g = Some (res, g')"
    "fst cr \<le> l" "l \<le> snd cr" "fst cr \<le> r" "r \<le> snd cr"
  shows "\<exists>l' r'. res = Inr (l', r') \<and> fst cr \<le> l' \<and> l' \<le> snd cr \<and> fst cr \<le> r' \<and> r' \<le> snd cr \<and>
           (mode = LESS \<longrightarrow> l' \<noteq> r')"
  using redraw_loop_ok_aux [OF assms(3)] assms by simp

lemma small_query_branch_ok:
  assumes S: "randint_in_range S" and v: "validate mode cr = None"
    and r: "small_query_branch S mode cr g = Some (res, g')"
  shows "\<exists>l r. res = Inr (l, r) \<and> dim_ok mode cr l r"
proof -
  have ne: "fst cr \<le> snd cr" using v by (simp add: validate_None)
  let ?l = "fst (random_draw S (fst cr) (snd cr) g)"
  let ?g1 = "snd (random_draw S (fst cr) (snd cr) g)"
  let ?r = "fst (random_draw S (fst cr) (snd cr) ?g1)"
  let ?g2 = "snd (random_draw S (fst cr) (snd cr) ?g1)"
  have b: "fst cr \<le> ?l" "?l \<le> snd cr" "fst cr \<le> ?r" "?r \<le> snd cr"
    using S ne by (auto simp: randint_in_range_def)
  from r ne obtain y where y: "redraw_loop S mode cr ?l ?r ?g2 = Some y"
    by (auto simp: small_query_branch_def randint_nonempty split: option.splits)
  obtain res1 g3 where yy: "y = (res1, g3)" by (cases y)
  from redraw_loop_ok [OF S v y [unfolded yy] b] obtain l' r' where
    l: "res1 = Inr (l', r')" "fst cr \<le> l'" "l' \<le> snd cr" "fst cr \<le> r'" "r' \<le> snd cr"
       "mode = LESS \<longrightarrow> l' \<noteq> r'" by blast
  have "res = (if l' > r' then Inr (r', l') else Inr (l', r'))"
    using r ne y yy l(1) by (simp add: small_query_branch_def randint_nonempty split: if_splits)
  with l show ?thesis by (auto simp: dim_ok_def)
qed

lemma sample_dimension_ok:
  assumes S: "randint_in_range S" and v: "validate mode cr = None"
    and r: "sample_dimension S mode big_query cr g = Some (res, g')"
  shows "\<exists>l r. res = Inr (l, r) \<and> dim_ok mode cr l r"
proof (cases "fst (random_random S g) < big_query")
  case True
  with r have b: "big_query_branch S mode cr (snd (random_random S g)) = (res, g')"
    by (simp add: sample_dimension_def)
  from big_query_branch_ok [OF v S, of "snd (random_random S g)"] b show ?thesis by auto
next
  case False
  with r have "small_query_branch S mode cr (snd (random_random S g)) = Some (res, g')"
    by (simp add: sample_dimension_def)
  from small_query_branch_ok [OF S v this] show ?thesis .
qed

lemma redraw_loop_exit:
  "\<not> (mode = LESS \<and> l = r) \<Longrightarrow> redraw_loop S mode cr l r g = Some (Inr (l, r), g)"
  by (subst redraw_loop.simps) auto

lemma small_query_branch_allow_equal:
  assumes "fst cr \<le> snd cr"
  shows "\<exists>l r g'. small_query_branch S ALLOW_EQUAL cr g = Some (Inr (l, r), g')"
  using assms by (simp add: small_query_branch_def randint_nonempty redraw_loop_exit)

lemma sample_dimension_no_error:
  assumes "randint_in_range S" and "validate mode cr = None"
  shows "sample_dimension S mode big_query cr g \<noteq> Some (Inl e, g')"
proof
  assume "sample_dimension S mode big_query cr g = Some (Inl e, g')"
  from sample_dimension_ok [OF assms this] show False by auto
qed

lemma sample_dimension_big_returns:
  assumes "randint_in_range S" and "validate mode cr = None"
    and "fst (random_random S g) < big_query"
  shows "\<exists>l r g'. sample_dimension S mode big_query cr g = Some (Inr (l, r), g')"
  using big_query_branch_ok [OF assms(2,1), of "snd (random_random S g)"] assms(3)
  by (auto simp: sample_dimension_def)

lemma sample_dimension_allow_equal_returns:
  assumes "randint_in_range S" and "validate ALLOW_EQUAL cr = None"
  shows "\<exists>l r g'. sample_dimension S ALLOW_EQUAL big_query cr g = Some (Inr (l, r), g')"
proof (cases "fst (random_random S g) < big_query")
  case True
  from sample_dimension_big_returns [OF assms this] show ?thesis .
next
  case False
  have "fst cr \<le> snd cr" using assms(2) by (simp add: validate_None)
  from small_query_branch_allow_equal [OF this, of S "snd (random_random S g)"] False
  show ?thesis by (simp add: sample_dimension_def)
qed

subsection \<open>The loops over the dimensions and over the queries\<close>

lemma dimension_loop_valid:
  "dimension_loop S mode bq prs ql qr g = Some (Inr (L, R), g') \<Longrightarrow> randint_in_range S \<Longrightarrow>
     \<exists>ls rs. L = ql @ ls \<and> R = qr @ rs \<and> length ls = length prs \<and> length rs = length prs \<and>
       (\<forall>i < length prs. dimension_valid mode (prs ! i) (ls ! i) (rs ! i))"
proof (induction prs arbitrary: ql qr g)
  case Nil
  then show ?case by simp
next
  case (Cons pr prs)
  from Cons.prems(1) obtain cr where cr: "cur_range pr = Inr cr"
    by (auto split: sum.splits)
  from Cons.prems(1) cr have v: "validate mode cr = None"
    by (auto split: option.splits)
  from Cons.prems(1) cr v obtain res g1 where
    s: "sample_dimension S mode bq cr g = Some (res, g1)"
    by (auto split: option.splits)
  from sample_dimension_ok [OF Cons.prems(2) v s] obtain l r where
    lr: "res = Inr (l, r)" "dim_ok mode cr l r" by blast
  from Cons.prems(1) cr v s lr have
    rec: "dimension_loop S mode bq prs (ql @ [l]) (qr @ [r]) g1 = Some (Inr (L, R), g')"
    by simp
  from Cons.IH [OF rec Cons.prems(2)] obtain ls rs where
    ih: "L = (ql @ [l]) @ ls" "R = (qr @ [r]) @ rs" "length ls = length prs"
        "length rs = length prs"
        "\<forall>i < length prs. dimension_valid mode (prs ! i) (ls ! i) (rs ! i)" by blast
  have "\<forall>i < length (pr # prs). dimension_valid mode ((pr # prs) ! i) ((l # ls) ! i) ((r # rs) ! i)"
    using ih(5) lr(2) cr by (auto simp: nth_Cons dimension_valid_def split: nat.splits)
  with ih show ?case
    by (intro exI [of _ "l # ls"] exI [of _ "r # rs"]) simp
qed

lemma get_one_query_valid:
  assumes "get_one_query S position_range bq mode wg index g = Some (Inr q, g')"
    and "randint_in_range S"
  shows "query_valid mode (default_position_range position_range) q"
proof -
  from assms(1) obtain L R g1 where
    d: "dimension_loop S mode bq (default_position_range position_range) [] [] g = Some (Inr (L, R), g1)"
    and q: "fst q = L" "fst (snd q) = R"
    by (auto simp: get_one_query_def split: option.splits sum.splits prod.splits)
  from dimension_loop_valid [OF d assms(2)] q show ?thesis
    by (auto simp: query_valid_def)
qed

lemma random_loop_all:
  assumes "random_loop S position_range mode wg bq is ret g = Some (Inr qs, g')"
    and "\<And>i g q g1. get_one_query S position_range bq mode wg i g = Some (Inr q, g1) \<Longrightarrow> P q"
    and "\<forall>q \<in> set ret. P q"
  shows "\<forall>q \<in> set qs. P q"
  using assms(1,3)
proof (induction "is" arbitrary: ret g)
  case Nil
  then show ?case by simp
next
  case (Cons i "is")
  from Cons.prems(1) obtain q g1 where
    q: "get_one_query S position_range bq mode wg (i + 1) g = Some (Inr q, g1)"
    and rec: "random_loop S position_range mode wg bq is (ret @ [q]) g1 = Some (Inr qs, g')"
    by (auto split: option.splits sum.splits prod.splits)
  have "\<forall>x \<in> set (ret @ [q]). P x" using Cons.prems(2) assms(2) [OF q] by simp
  from Cons.IH [OF rec this] show ?case .
qed

lemma cur_range_normalize_spec: "cur_range (normalize_spec pr) = cur_range pr"
  by (induction pr rule: normalize_spec.induct) simp_all

lemma dimension_loop_normalize_spec:
  "dimension_loop S mode big_query (map normalize_spec prs) query_l query_r g =
   dimension_loop S mode big_query prs query_l query_r g"
  by (induction prs arbitrary: query_l query_r g)
     (simp_all add: cur_range_normalize_spec split: sum.splits option.splits prod.splits)

subsection \<open>The batch as a sequence of calls\<close>

lemma random_loop_extends:
  "random_loop S pr mode wg bq is ret g = Some (Inr qs, g') \<Longrightarrow>
     \<exists>new. qs = ret @ new \<and> length new = length is"
proof (induction "is" arbitrary: ret g)
  case Nil
  then show ?case by simp
next
  case (Cons i "is")
  from Cons.prems obtain q g1 where
    rec: "random_loop S pr mode wg bq is (ret @ [q]) g1 = Some (Inr qs, g')"
    by (auto split: option.splits sum.splits prod.splits)
  from Cons.IH [OF rec] obtain new where "qs = (ret @ [q]) @ new" "length new = length is"
    by blast
  then show ?case by (intro exI [of _ "q # new"]) simp
qed

lemma random_loop_append:
  "random_loop S pr mode wg bq (is @ js) ret g =
     (case random_loop S pr mode wg bq is ret g of
        None \<Rightarrow> None
      | Some (Inl e, g1) \<Rightarrow> Some (Inl e, g1)
      | Some (Inr ret1, g1) \<Rightarrow> random_loop S pr mode wg bq js ret1 g1)"
  by (induction "is" arbitrary: ret g) (auto split: option.splits sum.splits prod.splits)

lemma random_loop_split:
  assumes "random_loop S pr mode wg bq (is @ js) ret g = Some (Inr qs, g')"
  shows "\<exists>g1. random_loop S pr mode wg bq is ret g = Some (Inr (take (length ret + length is) qs), g1) \<and>
              random_loop S pr mode wg bq js (take (length ret + length is) qs) g1 = Some (Inr qs, g')"
proof -
  from assms obtain ret1 g1 where
    a: "random_loop S pr mode wg bq is ret g = Some (Inr ret1, g1)" and
    b: "random_loop S pr mode wg bq js ret1 g1 = Some (Inr qs, g')"
    by (auto simp: random_loop_append split: option.splits sum.splits prod.splits)
  from random_loop_extends [OF a] obtain n1 where n1: "ret1 = ret @ n1" "length n1 = length is"
    by blast
  from random_loop_extends [OF b] obtain n2 where n2: "qs = ret1 @ n2" by blast
  have "take (length ret + length is) qs = ret1" using n1 n2 by simp
  with a b show ?thesis by auto
qed

lemma random_loop_step:
  assumes "random_loop S pr mode wg bq (i # is) ret g = Some (Inr qs, g')"
  shows "\<exists>g1. get_one_query S pr bq mode wg (i + 1) g = Some (Inr (qs ! length ret), g1) \<and>
              random_loop S pr mode wg bq [i] ret g = Some (Inr (take (length ret + 1) qs), g1)"
proof -
  from assms obtain q g1 where
    q: "get_one_query S pr bq mode wg (i + 1) g = Some (Inr q, g1)" and
    rec: "random_loop S pr mode wg bq is (ret @ [q]) g1 = Some (Inr qs, g')"
    by (auto split: option.splits sum.splits prod.splits)
  from random_loop_extends [OF rec] obtain new where n: "qs = (ret @ [q]) @ new" by blast
  have "qs ! length ret = q" "take (length ret + 1) qs = ret @ [q]" using n by (simp_all add: nth_append)
  with q show ?thesis by simp
qed

lemma length_range_py: "length (range_py num) = nat num"
  by (simp add: range_py_def)

lemma range_py_split:
  assumes "0 \<le> k" and "k < num"
  shows "range_py num = range_py k @ k # [k + 1..num - 1]"
proof -
  have "[0..num - 1] = [0..k - 1] @ [k..num - 1]"
    using assms by (intro upto_split1) auto
  also have "[k..num - 1] = k # [k + 1..num - 1]"
    using assms by (intro upto_rec1) auto
  finally show ?thesis by (simp add: range_py_def)
qed

lemma range_py_Suc: "0 \<le> k \<Longrightarrow> range_py (k + 1) = range_py k @ [k]"
  using range_py_split [of k "k + 1"] by simp

lemma RangeQuery_random_prefix:
  assumes r: "RangeQuery_random S num pr mode wg bq g = Some (Inr qs, g')"
    and k: "0 \<le> k" "k < num"
  shows "\<exists>g1 g2.
           RangeQuery_random S k pr mode wg bq g = Some (Inr (take (nat k) qs), g1) \<and>
           get_one_query S pr bq mode wg (k + 1) g1 = Some (Inr (qs ! nat k), g2) \<and>
           RangeQuery_random S (k + 1) pr mode wg bq g = Some (Inr (take (nat k + 1) qs), g2)"
proof -
  from r have "random_loop S pr mode wg bq (range_py k @ k # [k + 1..num - 1]) [] g = Some (Inr qs, g')"
    by (simp add: RangeQuery_random_def range_py_split [OF k])
  from random_loop_split [OF this] obtain g1 where
    a: "random_loop S pr mode wg bq (range_py k) [] g = Some (Inr (take (nat k) qs), g1)" and
    b: "random_loop S pr mode wg bq (k # [k + 1..num - 1]) (take (nat k) qs) g1 = Some (Inr qs, g')"
    by (auto simp: length_range_py)
  from random_loop_extends [OF a] have "length (take (nat k) qs) = nat k"
    by (simp add: length_range_py)
  then have len: "nat k \<le> length qs" by simp
  then have lt: "min (length qs) (nat k) = nat k" by simp
  from random_loop_step [OF b] obtain g2 where
    c: "get_one_query S pr bq mode wg (k + 1) g1 = Some (Inr (qs ! nat k), g2)" and
    d: "random_loop S pr mode wg bq [k] (take (nat k) qs) g1 = Some (Inr (take (nat k + 1) qs), g2)"
    unfolding length_take lt by auto
  have "RangeQuery_random S (k + 1) pr mode wg bq g = Some (Inr (take (nat k + 1) qs), g2)"
    unfolding RangeQuery_random_def range_py_Suc [OF k(1)] random_loop_append
    using a d by simp
  with a c show ?thesis by (auto simp: RangeQuery_random_def)
qed

lemma RangeQuery_random_length:
  assumes "RangeQuery_random S num pr mode wg bq g = Some (Inr qs, g')"
  shows "length qs = nat num"
  using random_loop_extends [OF assms [unfolded RangeQuery_random_def]]
  by (auto simp: length_range_py)

lemma get_one_query_weight:
  assumes "get_one_query S pr bq mode wg index g = Some (Inr q, g')"
  shows "snd (snd q) = (case wg of None \<Rightarrow> [] | Some f \<Rightarrow> f index (fst q) (fst (snd q)))"
  using assms
  by (auto simp: get_one_query_def split: option.splits sum.splits prod.splits)

lemma range_py_nth: "k < nat num \<Longrightarrow> range_py num ! k = int k"
  by (simp add: range_py_def)

lemma slice_as_nth:
  "b \<le> length xs \<Longrightarrow> take (b - a) (drop a xs) = map ((!) xs) [a..<b]"
proof (rule nth_equalityI)
  assume b: "b \<le> length xs"
  then show "length (take (b - a) (drop a xs)) = length (map ((!) xs) [a..<b])" by simp
  fix i
  assume "i < length (take (b - a) (drop a xs))"
  then have i: "i < b - a" by simp
  then have "take (b - a) (drop a xs) ! i = xs ! (a + i)" using b by simp
  moreover have "map ((!) xs) [a..<b] ! i = xs ! (a + i)" using i by simp
  ultimately show "take (b - a) (drop a xs) ! i = map ((!) xs) [a..<b] ! i" by simp
qed

subsection \<open>Errors and termination\<close>

lemma well_shaped_cur_range: "well_shaped pr \<Longrightarrow> \<exists>cr. cur_range pr = Inr cr"
  by (cases pr rule: cur_range.cases) (simp_all add: well_shaped_def)

lemma invalid_dimension_validate:
  "invalid_dimension mode pr \<longleftrightarrow> (\<exists>cr e. cur_range pr = Inr cr \<and> validate mode cr = Some e)"
  by (auto simp: invalid_dimension_def validate_def split: sum.splits)

lemma small_query_branch_allow_equal_returns:
  "\<exists>y. small_query_branch S ALLOW_EQUAL cr g = Some y"
  by (auto simp: small_query_branch_def redraw_loop_exit split: prod.splits sum.splits)

lemma sample_dimension_allow_equal_Some:
  "\<exists>y. sample_dimension S ALLOW_EQUAL big_query cr g = Some y"
  using small_query_branch_allow_equal_returns [of S cr "snd (random_random S g)"]
  by (auto simp: sample_dimension_def)

lemma dimension_loop_allow_equal_Some:
  "\<exists>y. dimension_loop S ALLOW_EQUAL big_query prs query_l query_r g = Some y"
proof (induction prs arbitrary: query_l query_r g)
  case Nil
  then show ?case by simp
next
  case (Cons pr prs)
  show ?case
  proof (cases "cur_range pr")
    case (Inl e)
    then show ?thesis by simp
  next
    case (Inr cr)
    show ?thesis
    proof (cases "validate ALLOW_EQUAL cr")
      case (Some e)
      with Inr show ?thesis by simp
    next
      case None
      from sample_dimension_allow_equal_Some [of S big_query cr g] obtain res g1 where
        s: "sample_dimension S ALLOW_EQUAL big_query cr g = Some (res, g1)" by auto
      show ?thesis
      proof (cases res)
        case (Inl e)
        with Inr None s show ?thesis by simp
      next
        case (Inr lr)
        obtain l r where "lr = (l, r)" by (cases lr)
        with Inr \<open>cur_range pr = Inr cr\<close> None s
          Cons.IH [of "query_l @ [l]" "query_r @ [r]" g1]
        show ?thesis by simp
      qed
    qed
  qed
qed

lemma get_one_query_allow_equal_Some:
  "\<exists>y. get_one_query S position_range big_query ALLOW_EQUAL weight_generator index g = Some y"
  using dimension_loop_allow_equal_Some [of S big_query "default_position_range position_range" "[]" "[]" g]
  by (auto simp: get_one_query_def split: sum.splits option.splits prod.splits)

lemma random_loop_allow_equal_Some:
  "\<exists>y. random_loop S position_range ALLOW_EQUAL weight_generator big_query is ret g = Some y"
proof (induction "is" arbitrary: ret g)
  case Nil
  then show ?case by simp
next
  case (Cons i "is")
  from get_one_query_allow_equal_Some [of S position_range big_query weight_generator "i + 1" g]
  obtain res g1 where
    q: "get_one_query S position_range big_query ALLOW_EQUAL weight_generator (i + 1) g = Some (res, g1)"
    by auto
  show ?case
  proof (cases res)
    case (Inl e)
    with q show ?thesis by simp
  next
    case (Inr q')
    with q Cons.IH [of "ret @ [q']" g1] show ?thesis by simp
  qed
qed

lemma dimension_loop_error:
  assumes "dimension_loop S mode big_query prs query_l query_r g = Some (Inl e, g')"
    and "randint_in_range S"
  shows "\<exists>k < length prs.
           (cur_range (prs ! k) = Inl e \<or>
            (\<exists>cr. cur_range (prs ! k) = Inr cr \<and> validate mode cr = Some e)) \<and>
           (\<exists>ql qr. dimension_loop S mode big_query (take k prs) query_l query_r g
                      = Some (Inr (ql, qr), g'))"
  using assms(1)
proof (induction prs arbitrary: query_l query_r g)
  case Nil
  then show ?case by simp
next
  case (Cons pr prs)
  show ?case
  proof (cases "cur_range pr")
    case (Inl e')
    with Cons.prems have "e' = e" "g' = g" by simp_all
    with Inl show ?thesis by (intro exI [of _ 0]) simp
  next
    case (Inr cr)
    show ?thesis
    proof (cases "validate mode cr")
      case (Some e')
      with Cons.prems Inr have "e' = e" "g' = g" by simp_all
      with Inr Some show ?thesis by (intro exI [of _ 0]) simp
    next
      case None
      from Cons.prems Inr None obtain res g1 where
        s: "sample_dimension S mode big_query cr g = Some (res, g1)"
        by (auto split: option.splits)
      from sample_dimension_ok [OF assms(2) None s] obtain l r where lr: "res = Inr (l, r)"
        by blast
      from Cons.prems Inr None s lr have
        rec: "dimension_loop S mode big_query prs (query_l @ [l]) (query_r @ [r]) g1 = Some (Inl e, g')"
        by simp
      from Cons.IH [OF rec] obtain k ql qr where
        k: "k < length prs"
           "cur_range (prs ! k) = Inl e \<or> (\<exists>cr. cur_range (prs ! k) = Inr cr \<and> validate mode cr = Some e)"
           "dimension_loop S mode big_query (take k prs) (query_l @ [l]) (query_r @ [r]) g1
              = Some (Inr (ql, qr), g')"
        by blast
      have "dimension_loop S mode big_query (take (Suc k) (pr # prs)) query_l query_r g
              = Some (Inr (ql, qr), g')"
        using Inr None s lr k(3) by simp
      with k(1,2) show ?thesis by (intro exI [of _ "Suc k"]) auto
    qed
  qed
qed

lemma dimension_loop_success:
  assumes "dimension_loop S mode big_query prs query_l query_r g = Some (Inr res, g')"
  shows "\<forall>pr \<in> set prs. \<not> invalid_dimension mode pr"
  using assms
proof (induction prs arbitrary: query_l query_r g)
  case Nil
  then show ?case by simp
next
  case (Cons pr prs)
  from Cons.prems obtain cr where cr: "cur_range pr = Inr cr" by (auto split: sum.splits)
  from Cons.prems cr have v: "validate mode cr = None" by (auto split: option.splits)
  from Cons.prems cr v obtain l r g1 where
    "dimension_loop S mode big_query prs (query_l @ [l]) (query_r @ [r]) g1 = Some (Inr res, g')"
    by (auto split: option.splits sum.splits prod.splits)
  from Cons.IH [OF this] cr v show ?case by (auto simp: invalid_dimension_validate)
qed

lemma get_one_query_error:
  "get_one_query S position_range big_query mode weight_generator index g = Some (Inl e, g') \<longleftrightarrow>
   dimension_loop S mode big_query (default_position_range position_range) [] [] g = Some (Inl e, g')"
  by (auto simp: get_one_query_def split: option.splits sum.splits prod.splits)

lemma get_one_query_success:
  "get_one_query S position_range big_query mode weight_generator index g = Some (Inr q, g') \<Longrightarrow>
   \<exists>res. dimension_loop S mode big_query (default_position_range position_range) [] [] g
            = Some (Inr res, g')"
  by (auto simp: get_one_query_def split: option.splits sum.splits prod.splits)

lemma random_loop_error:
  "random_loop S position_range mode weight_generator big_query is ret g = Some (Inl e, g') \<Longrightarrow>
     \<exists>i g0. get_one_query S position_range big_query mode weight_generator i g0 = Some (Inl e, g')"
proof (induction "is" arbitrary: ret g)
  case Nil
  then show ?case by simp
next
  case (Cons i "is")
  then show ?case by (auto split: option.splits sum.splits prod.splits)
qed

lemma random_loop_success:
  "random_loop S position_range mode weight_generator big_query (i # is) ret g = Some (Inr qs, g') \<Longrightarrow>
     \<exists>q g1. get_one_query S position_range big_query mode weight_generator (i + 1) g = Some (Inr q, g1)"
  by (auto split: option.splits sum.splits prod.splits)

lemma range_py_positive: "1 \<le> num \<Longrightarrow> range_py num = 0 # [1..num - 1]"
  by (simp add: range_py_def upto_rec1)

lemma RangeQuery_random_first_invalid:
  assumes "1 \<le> num" and "default_position_range position_range = pr # prs"
    and "cur_range pr = Inr cr" and "validate mode cr = Some e"
  shows "RangeQuery_random S num position_range mode weight_generator big_query g = Some (Inl e, g)"
  using assms by (simp add: RangeQuery_random_def range_py_positive get_one_query_def)

lemma get_one_query_InvalidRange:
  assumes S: "randint_in_range S"
    and w: "list_all well_shaped (default_position_range position_range)"
    and e: "get_one_query S position_range big_query mode weight_generator index g = Some (Inl e, g')"
  shows "InvalidRange e \<and> list_ex (invalid_dimension mode) (default_position_range position_range)"
proof -
  let ?prs = "default_position_range position_range"
  from e have "dimension_loop S mode big_query ?prs [] [] g = Some (Inl e, g')"
    by (simp add: get_one_query_error)
  from dimension_loop_error [OF this S] obtain k where
    k: "k < length ?prs"
       "cur_range (?prs ! k) = Inl e \<or> (\<exists>cr. cur_range (?prs ! k) = Inr cr \<and> validate mode cr = Some e)"
    by blast
  from w k(1) have "well_shaped (?prs ! k)" by (simp add: list_all_length)
  from well_shaped_cur_range [OF this] k(2) obtain cr where
    cr: "cur_range (?prs ! k) = Inr cr" "validate mode cr = Some e" by auto
  then have "invalid_dimension mode (?prs ! k)" by (auto simp: invalid_dimension_validate)
  with k(1) have "list_ex (invalid_dimension mode) ?prs"
    by (auto simp: list_ex_iff)
  with validate_Some_InvalidRange [OF cr(2)] show ?thesis by simp
qed

lemma cur_range_Inl: "cur_range pr = Inl e \<Longrightarrow> e = IndexError"
  by (cases pr rule: cur_range.cases) simp_all

subsection \<open>Running the code on the counter source\<close>

lemma counter_source_in_range: "randint_in_range counter_source"
proof -
  have "a \<le> a + int n mod (b - a + 1) \<and> a + int n mod (b - a + 1) \<le> b" if "a \<le> b" for a b :: int and n :: nat
  proof -
    have p: "0 < b - a + 1" using that by simp
    have "0 \<le> int n mod (b - a + 1)" using p by (rule pos_mod_sign)
    moreover have "int n mod (b - a + 1) < b - a + 1" using p by (rule pos_mod_bound)
    ultimately show ?thesis by linarith
  qed
  then show ?thesis by (simp add: randint_in_range_def counter_source_def)
qed

lemmas counter_run =
  get_one_query_def default_position_range_def validate_def sample_dimension_def
  counter_source_def big_query_branch_def small_query_branch_def randint_def
  redraw_loop.simps RangeQuery_random_def range_py_def upto.simps index_and_sum_def

lemma counter_run_one:
  "get_one_query counter_source (Some [BInt 10, BSeq [5]]) (1 / 5) LESS
     (None :: (int \<Rightarrow> int list \<Rightarrow> int list \<Rightarrow> int list) option) 1 (0::nat)
   = Some (Inr ([3, 1], [8, 5], []), 6)"
  by (simp add: counter_run)

lemma counter_run_batch:
  "RangeQuery_random counter_source 2 (Some [BInt 10, BSeq [5]]) LESS
     (None :: (int \<Rightarrow> int list \<Rightarrow> int list \<Rightarrow> int list) option) (1 / 5) (0::nat)
   = Some (Inr [([3, 1], [8, 5], []), ([4, 1], [9, 2], [])], 12)"
  by (simp add: counter_run)

lemma counter_run_weighted:
  "RangeQuery_random counter_source 2 (Some [BInt 10, BSeq [5]]) ALLOW_EQUAL
     (Some index_and_sum) (1 / 5) (0::nat)
   = Some (Inr [([3, 1], [8, 5], [1, 17]), ([4, 1], [9, 2], [2, 16])], 12)"
  by (simp add: counter_run)

lemma counter_run_weighted_one:
  "get_one_query counter_source (Some [BInt 10, BSeq [5]]) (1 / 5) ALLOW_EQUAL
     (Some index_and_sum) 2 (6::nat)
   = Some (Inr ([4, 1], [9, 2], [2, 16]), 12)"
  by (simp add: counter_run)

lemma counter_run_weighted_prefix:
  "RangeQuery_random counter_source 1 (Some [BInt 10, BSeq [5]]) ALLOW_EQUAL
     (Some index_and_sum) (1 / 5) (0::nat)
   = Some (Inr [([3, 1], [8, 5], [1, 17])], 6)"
  by (simp add: counter_run)

lemma counter_run_invalid_second:
  "RangeQuery_random counter_source 2 (Some [BInt 10, BSeq [5, 4]]) LESS
     (None :: (int \<Rightarrow> int list \<Rightarrow> int list \<Rightarrow> int list) option) (1 / 5) (0::nat)
   = Some (Inl (ValueError UpperBelowLower), 3)"
  by (simp add: counter_run)

lemma counter_run_degenerate:
  "RangeQuery_random counter_source 2 (Some [BSeq [4, 4]]) ALLOW_EQUAL
     (None :: (int \<Rightarrow> int list \<Rightarrow> int list \<Rightarrow> int list) option) (1 / 5) (0::nat)
   = Some (Inr [([4], [4], []), ([4], [4], [])], 6)"
  by (simp add: counter_run)

lemma counter_run_one_invalid_second:
  "get_one_query counter_source (Some [BInt 10, BSeq [5, 4]]) (1 / 5) ALLOW_EQUAL
     (None :: (int \<Rightarrow> int list \<Rightarrow> int list \<Rightarrow> int list) option) 1 (0::nat)
   = Some (Inl (ValueError UpperBelowLower), 3)"
  by (simp add: counter_run)

text \<open>
  The redraw loop at work: on \<open>slow_source\<close> the first two draws are equal, and under
  \<open>LESS\<close> the loop draws again; on \<open>stuck_source\<close> all draws are equal and, under \<open>LESS\<close>, the
  call never returns, also when a later dimension is invalid.
\<close>

lemma slow_source_redraws:
  "get_one_query slow_source (Some [BInt 10]) (1 / 5) LESS
     (None :: (int \<Rightarrow> int list \<Rightarrow> int list \<Rightarrow> int list) option) 1 (2::nat)
   = Some (Inr ([2], [3], []), 7) \<and>
   get_one_query slow_source (Some [BInt 10]) (1 / 5) ALLOW_EQUAL
     (None :: (int \<Rightarrow> int list \<Rightarrow> int list \<Rightarrow> int list) option) 1 (2::nat)
   = Some (Inr ([2], [2], []), 5)"
  by (simp add: get_one_query_def default_position_range_def validate_def sample_dimension_def
      slow_source_def small_query_branch_def randint_def redraw_loop.simps)

lemma stuck_source_in_range: "randint_in_range stuck_source"
  by (simp add: randint_in_range_def stuck_source_def)

lemma stuck_redraw_loop_aux:
  "redraw_loop S mode cr l r g = Some y \<Longrightarrow>
     \<not> (S = stuck_source \<and> mode = LESS \<and> l = r \<and> fst cr \<le> snd cr)"
proof (induction S mode cr l r g y rule: redraw_loop.raw_induct [rotated 1, consumes 1, case_names step])
  case (step f S mode cr l r g y)
  show ?case
  proof
    assume a: "S = stuck_source \<and> mode = LESS \<and> l = r \<and> fst cr \<le> snd cr"
    then have "f S mode cr (fst cr) (fst cr) g = Some y"
      using step(2) by (simp add: randint_def stuck_source_def)
    from step(1) [OF this] a show False by simp
  qed
qed

lemma stuck_redraw_loop:
  "fst cr \<le> snd cr \<Longrightarrow> redraw_loop stuck_source LESS cr l l g = None"
  using stuck_redraw_loop_aux [of stuck_source LESS cr l l g] by (cases "redraw_loop stuck_source LESS cr l l g") auto

lemma stuck_source_never_returns:
  "RangeQuery_random stuck_source 1 (Some [BInt 10, BSeq [5, 4]]) LESS
     (None :: (int \<Rightarrow> int list \<Rightarrow> int list \<Rightarrow> int list) option) (1 / 5) () = None"
proof -
  have "small_query_branch stuck_source LESS (1, 10) () = None"
    by (simp add: small_query_branch_def randint_def stuck_source_def stuck_redraw_loop
        [unfolded stuck_source_def])
  then have "sample_dimension stuck_source LESS (1 / 5) (1, 10) () = None"
    by (simp add: sample_dimension_def stuck_source_def)
  then show ?thesis
    by (simp add: RangeQuery_random_def range_py_def upto.simps get_one_query_def
        default_position_range_def validate_def)
qed

subsection \<open>Rendering\<close>

lemma to_str_loop_append:
  "to_str_loop str_w result res =
     res @ concat (map (\<lambda>q. render_line str_w q @ [CHR 0x0A]) result)"
proof (induction result arbitrary: res)
  case Nil
  then show ?case by simp
next
  case (Cons q result)
  obtain l r w where q: "q = (l, r, w)" by (cases q)
  show ?case
    unfolding q by (simp add: Cons.IH render_line_def Let_def)
qed

lemma butlast_concat_terminated:
  "butlast (concat (map (\<lambda>x. x @ [c]) xs)) = join [c] xs"
proof (induction xs)
  case Nil
  then show ?case by simp
next
  case (Cons x xs)
  show ?case
  proof (cases xs)
    case Nil
    then show ?thesis by simp
  next
    case (Cons y ys)
    with Cons.IH show ?thesis by (simp add: butlast_append)
  qed
qed

lemma range_py_nonpositive: "num \<le> 0 \<Longrightarrow> range_py num = []"
  by (simp add: range_py_def)

lemma to_str_example:
  "to_str str_int [([1, 2], [3, 14], []), ([5, 6], [7, 8], [-9, 10])] = ''1 2 3 14'' @ [CHR 0x0A] @ ''5 6 7 8 -9 10''"
  by (simp add: to_str_def str_int_def str_nat.simps)

section \<open>The claims\<close>

subsection \<open>C1: every generated query lies within its bounds\<close>

text \<open>
  C1. Whenever \<open>get_one_query\<close> returns a triple \<open>(L, R, W)\<close>, and for every triple of a
  batch that \<open>RangeQuery.random\<close> returns, \<open>L\<close> and \<open>R\<close> have one entry per bound supplied
  and, with \<open>(lo, hi)\<close> the normalised bound of dimension \<open>i\<close>,
  \<open>lo \<le> L[i] \<le> R[i] \<le> hi\<close>, and \<open>L[i] \<noteq> R[i]\<close> under \<open>LESS\<close>. The only assumption is the
  contract of \<open>randint\<close>.
\<close>

theorem C1_query_within_bounds:
  assumes "randint_in_range S"
  shows "(get_one_query S position_range big_query mode weight_generator index g = Some (Inr q, g1)
            \<longrightarrow> query_valid mode (default_position_range position_range) q) \<and>
         (RangeQuery_random S num position_range mode weight_generator big_query g = Some (Inr qs, g2)
            \<longrightarrow> (\<forall>q \<in> set qs. query_valid mode (default_position_range position_range) q))"
proof (intro conjI impI)
  assume "get_one_query S position_range big_query mode weight_generator index g = Some (Inr q, g1)"
  then show "query_valid mode (default_position_range position_range) q"
    using assms by (rule get_one_query_valid)
next
  assume "RangeQuery_random S num position_range mode weight_generator big_query g = Some (Inr qs, g2)"
  then have "random_loop S position_range mode weight_generator big_query (range_py num) [] g
      = Some (Inr qs, g2)"
    by (simp add: RangeQuery_random_def)
  then show "\<forall>q \<in> set qs. query_valid mode (default_position_range position_range) q"
    by (rule random_loop_all) (auto intro: get_one_query_valid assms)
qed

theorem C1_query_within_bounds_witness:
  "randint_in_range counter_source \<and>
   get_one_query counter_source (Some [BInt 10, BSeq [5]]) (1 / 5) LESS
     (None :: (int \<Rightarrow> int list \<Rightarrow> int list \<Rightarrow> int list) option) 1 (0::nat)
     = Some (Inr ([3, 1], [8, 5], []), 6) \<and>
   query_valid LESS [BInt 10, BSeq [5]] ([3, 1], [8, 5], ([] :: int list)) \<and>
   RangeQuery_random counter_source 2 (Some [BInt 10, BSeq [5]]) LESS
     (None :: (int \<Rightarrow> int list \<Rightarrow> int list \<Rightarrow> int list) option) (1 / 5) (0::nat)
     = Some (Inr [([3, 1], [8, 5], []), ([4, 1], [9, 2], [])], 12) \<and>
   query_valid LESS [BInt 10, BSeq [5]] ([4, 1], [9, 2], ([] :: int list))"
  using counter_source_in_range counter_run_one counter_run_batch
    C1_query_within_bounds [OF counter_source_in_range,
      of "Some [BInt 10, BSeq [5]]" "1 / 5" LESS None 1 0 "([3, 1], [8, 5], [] :: int list)" 6
         2 "[([3, 1], [8, 5], []), ([4, 1], [9, 2], [])]" 12]
  by (simp add: default_position_range_def)

subsection \<open>C8: the text of a batch\<close>

text \<open>
  C8. \<open>to_str\<close> renders one line per query, the lines separated by newlines with no
  newline after the last one; a line is the values of \<open>L\<close> separated by spaces, a space,
  the values of \<open>R\<close> separated by spaces and, only when the weight is not empty, a space
  and the components of the weight separated by spaces. This is \<open>to_str_spec\<close>, which
  the loop of the code computes for every batch.
\<close>

theorem C8_to_str_renders_lines: "to_str str_w result = to_str_spec str_w result"
proof -
  have "to_str str_w result =
      butlast (concat (map (\<lambda>x. x @ [CHR 0x0A]) (map (render_line str_w) result)))"
    by (simp add: to_str_def to_str_loop_append comp_def)
  also have "\<dots> = join [CHR 0x0A] (map (render_line str_w) result)"
    by (rule butlast_concat_terminated)
  finally show ?thesis by (simp add: to_str_spec_def)
qed

subsection \<open>C10: the empty batch\<close>

text \<open>
  C10. \<open>to_str\<close> of a batch with no query is the empty string, and \<open>RangeQuery.random\<close>
  with \<open>num \<le> 0\<close> returns the empty batch whatever the bounds are, with the random
  source untouched: the bounds are not looked at.
\<close>

theorem C10_empty_batch:
  "to_str str_w [] = [] \<and>
   (num \<le> 0 \<longrightarrow>
      RangeQuery_random S num position_range mode weight_generator big_query g = Some (Inr [], g))"
  by (simp add: to_str_def RangeQuery_random_def range_py_nonpositive)

theorem C10_empty_batch_witness:
  "(0::int) \<le> 0 \<and>
   RangeQuery_random counter_source 0 (Some [BSeq [5, 4]]) LESS
     (None :: (int \<Rightarrow> int list \<Rightarrow> int list \<Rightarrow> int list) option) (1 / 5) (7::nat) = Some (Inr [], 7) \<and>
   to_str str_int [] = []"
  using C10_empty_batch [of str_int 0 counter_source "Some [BSeq [5, 4]]" LESS
      "None :: (int \<Rightarrow> int list \<Rightarrow> int list \<Rightarrow> int list) option" "1 / 5" 7]
  by simp

subsection \<open>C5: the big-query branch\<close>

text \<open>
  C5. For a dimension with normalised bounds \<open>(lo, hi)\<close> that passed the validation, the
  big-query branch draws \<open>len\<close> with \<open>randint\<close> from \<open>[min_len, span]\<close>, where
  \<open>span = hi - lo + 1\<close> and \<open>min_len = max(2 if LESS else 1, span // 2)\<close>, then draws \<open>L[i]\<close>
  with \<open>randint\<close> from \<open>[lo, hi - len + 1]\<close> and sets \<open>R[i] = L[i] + len - 1\<close>; the length
  \<open>R[i] - L[i] + 1\<close> is \<open>len\<close>, at least \<open>min_len\<close> and at most \<open>span\<close>. That a draw is uniform
  is the contract of \<open>random.randint\<close>, outside the code.
\<close>

theorem C5_big_query_branch:
  assumes "randint_in_range S" and "validate mode (lo, hi) = None"
  shows "\<exists>len l g1 g2.
           randint S (max (if mode = LESS then 2 else 1) ((hi - lo + 1) div 2)) (hi - lo + 1) g
             = (Inr len, g1) \<and>
           randint S lo (hi - len + 1) g1 = (Inr l, g2) \<and>
           big_query_branch S mode (lo, hi) g = (Inr (l, l + len - 1), g2) \<and>
           max (if mode = LESS then 2 else 1) ((hi - lo + 1) div 2) \<le> len \<and> len \<le> hi - lo + 1 \<and>
           lo \<le> l \<and> l \<le> hi - len + 1 \<and>
           (l + len - 1) - l + 1 = len"
  using big_query_branch_eq [OF assms(2,1), of g] by simp

theorem C5_big_query_branch_witness:
  "randint_in_range counter_source \<and> validate LESS (1, 10) = None \<and>
   (\<exists>len l g1 g2.
      randint counter_source (max (if LESS = LESS then 2 else 1) ((10 - 1 + 1) div 2)) (10 - 1 + 1) (1::nat)
        = (Inr len, g1) \<and>
      randint counter_source 1 (10 - len + 1) g1 = (Inr l, g2) \<and>
      big_query_branch counter_source LESS (1, 10) 1 = (Inr (l, l + len - 1), g2) \<and>
      max (if LESS = LESS then 2 else 1) ((10 - 1 + 1) div 2) \<le> len \<and> len \<le> 10 - 1 + 1 \<and>
      1 \<le> l \<and> l \<le> 10 - len + 1 \<and> (l + len - 1) - l + 1 = len) \<and>
   big_query_branch counter_source LESS (1, 10) (1::nat) = (Inr (3, 8), 3)"
proof -
  have v: "validate LESS (1, 10) = None" by (simp add: validate_def)
  have b: "big_query_branch counter_source LESS (1, 10) (1::nat) = (Inr (3, 8), 3)"
    by (simp add: counter_run)
  from counter_source_in_range v b
    C5_big_query_branch [OF counter_source_in_range v, of 1]
  show ?thesis by blast
qed

subsection \<open>C9: no draw has an empty range\<close>

text \<open>
  C9. For a dimension that passed the validation, every \<open>randint\<close> of its sampling has a
  non-empty range: \<open>min_len \<le> span\<close>, \<open>lo \<le> hi - len + 1\<close> for every \<open>len\<close> in \<open>[min_len, span]\<close>,
  and \<open>lo \<le> hi\<close>; so the sampling of the dimension never raises. It returns whenever it
  takes the big-query branch and whenever the mode is \<open>ALLOW_EQUAL\<close> (under \<open>LESS\<close> the
  redraw loop of the small-query branch runs until two draws differ).
\<close>

theorem C9_sampling_never_fails:
  assumes "randint_in_range S" and "validate mode (lo, hi) = None"
  shows "max (if mode = LESS then 2 else 1) ((hi - lo + 1) div 2) \<le> hi - lo + 1 \<and>
         (\<forall>len. max (if mode = LESS then 2 else 1) ((hi - lo + 1) div 2) \<le> len \<and> len \<le> hi - lo + 1
            \<longrightarrow> lo \<le> hi - len + 1) \<and>
         lo \<le> hi \<and>
         (\<forall>g e g'. sample_dimension S mode big_query (lo, hi) g \<noteq> Some (Inl e, g')) \<and>
         (\<forall>g. fst (random_random S g) < big_query \<or> mode = ALLOW_EQUAL \<longrightarrow>
            (\<exists>l r g'. sample_dimension S mode big_query (lo, hi) g = Some (Inr (l, r), g')))"
proof (intro conjI allI impI)
  show "max (if mode = LESS then 2 else 1) ((hi - lo + 1) div 2) \<le> hi - lo + 1"
    using big_query_lb [OF assms(2)] by simp
  show "lo \<le> hi" using assms(2) by (simp add: validate_None)
  show "lo \<le> hi - len + 1"
    if "max (if mode = LESS then 2 else 1) ((hi - lo + 1) div 2) \<le> len \<and> len \<le> hi - lo + 1" for len
    using that by linarith
  show "sample_dimension S mode big_query (lo, hi) g \<noteq> Some (Inl e, g')" for g e g'
    using assms by (rule sample_dimension_no_error)
  show "\<exists>l r g'. sample_dimension S mode big_query (lo, hi) g = Some (Inr (l, r), g')"
    if "fst (random_random S g) < big_query \<or> mode = ALLOW_EQUAL" for g
    using that
  proof
    assume "fst (random_random S g) < big_query"
    from sample_dimension_big_returns [OF assms this] show ?thesis .
  next
    assume m: "mode = ALLOW_EQUAL"
    from sample_dimension_allow_equal_returns [OF assms(1) assms(2) [unfolded m]] m
    show ?thesis by simp
  qed
qed

theorem C9_sampling_never_fails_witness:
  "randint_in_range counter_source \<and> validate LESS (1, 10) = None \<and>
   (max (if LESS = LESS then 2 else 1) ((10 - 1 + 1) div 2) \<le> (7::int) \<and> (7::int) \<le> 10 - 1 + 1) \<and>
   (1::int) \<le> 10 - 7 + 1 \<and>
   fst (random_random counter_source (0::nat)) < 1 / 5 \<and>
   sample_dimension counter_source LESS (1 / 5) (1, 10) (0::nat) = Some (Inr (3, 8), 3) \<and>
   sample_dimension counter_source LESS (1 / 5) (1, 10) (1::nat) = Some (Inr (3, 4), 4)"
proof -
  have v: "validate LESS (1, 10) = None" by (simp add: validate_def)
  have r: "fst (random_random counter_source (0::nat)) < 1 / 5" by (simp add: counter_source_def)
  have s0: "sample_dimension counter_source LESS (1 / 5) (1, 10) (0::nat) = Some (Inr (3, 8), 3)"
    by (simp add: counter_run)
  have s1: "sample_dimension counter_source LESS (1 / 5) (1, 10) (1::nat) = Some (Inr (3, 4), 4)"
    by (simp add: counter_run)
  from C9_sampling_never_fails [OF counter_source_in_range v, of "1 / 5"]
  have "(1::int) \<le> 10 - 7 + 1" by simp
  with counter_source_in_range v r s0 s1 show ?thesis by simp
qed

subsection \<open>C6: the normalisation of the bounds\<close>

text \<open>
  C6. An integer bound \<open>U\<close> is read as \<open>(1, U)\<close>, a one-element bound \<open>(x,)\<close> as \<open>(1, x)\<close>, a
  pair \<open>(lo, hi)\<close> as itself, and an unset \<open>position_range\<close> is the single dimension
  \<open>[1, 10]\<close>: \<open>get_one_query\<close> behaves on any bounds as on their normalised form.
\<close>

theorem C6_bound_normalization:
  "cur_range (BInt U) = Inr (1, U) \<and>
   cur_range (BSeq [x]) = Inr (1, x) \<and>
   cur_range (BSeq [lo, hi]) = Inr (lo, hi) \<and>
   map cur_range (default_position_range None) = [Inr (1, 10)] \<and>
   get_one_query S None big_query mode weight_generator index g =
     get_one_query S (Some [BSeq [1, 10]]) big_query mode weight_generator index g \<and>
   get_one_query S (Some prs) big_query mode weight_generator index g =
     get_one_query S (Some (map normalize_spec prs)) big_query mode weight_generator index g"
proof -
  have "dimension_loop S mode big_query [BInt 10] [] [] g =
        dimension_loop S mode big_query [BSeq [1, 10]] [] [] g"
    by simp
  then show ?thesis
    by (simp add: get_one_query_def default_position_range_def dimension_loop_normalize_spec)
qed

subsection \<open>C7: the weights\<close>

text \<open>
  C7. A query that \<open>get_one_query\<close> returns for the index \<open>i\<close> has the weight
  \<open>weight_generator(i, L, R)\<close>, computed from the finished vectors \<open>L\<close> and \<open>R\<close> of that
  query, and the empty weight \<open>()\<close> when no generator is given; in a batch of
  \<open>RangeQuery.random\<close> the query at position \<open>k\<close> (from 0) was generated with the index
  \<open>k + 1\<close>.
\<close>

theorem C7_weights:
  "(get_one_query S position_range big_query mode weight_generator index g = Some (Inr q, g1) \<longrightarrow>
      snd (snd q) =
        (case weight_generator of None \<Rightarrow> [] | Some wg \<Rightarrow> wg index (fst q) (fst (snd q)))) \<and>
   (RangeQuery_random S num position_range mode weight_generator big_query g = Some (Inr qs, g2) \<longrightarrow>
      (\<forall>k < length qs.
         snd (snd (qs ! k)) =
           (case weight_generator of None \<Rightarrow> []
            | Some wg \<Rightarrow> wg (int k + 1) (fst (qs ! k)) (fst (snd (qs ! k))))))"
proof (intro conjI impI allI)
  assume "get_one_query S position_range big_query mode weight_generator index g = Some (Inr q, g1)"
  then show "snd (snd q) =
      (case weight_generator of None \<Rightarrow> [] | Some wg \<Rightarrow> wg index (fst q) (fst (snd q)))"
    by (rule get_one_query_weight)
next
  fix k
  assume r: "RangeQuery_random S num position_range mode weight_generator big_query g = Some (Inr qs, g2)"
    and k: "k < length qs"
  have len: "length qs = nat num" using r by (rule RangeQuery_random_length)
  with k have k': "0 \<le> int k" "int k < num" by auto
  from RangeQuery_random_prefix [OF r k'] obtain ga gb where
    "get_one_query S position_range big_query mode weight_generator (int k + 1) ga
       = Some (Inr (qs ! k), gb)"
    by auto
  then show "snd (snd (qs ! k)) =
      (case weight_generator of None \<Rightarrow> []
       | Some wg \<Rightarrow> wg (int k + 1) (fst (qs ! k)) (fst (snd (qs ! k))))"
    by (rule get_one_query_weight)
qed

theorem C7_weights_witness:
  "RangeQuery_random counter_source 2 (Some [BInt 10, BSeq [5]]) ALLOW_EQUAL
     (Some index_and_sum) (1 / 5) (0::nat)
     = Some (Inr [([3, 1], [8, 5], [1, 17]), ([4, 1], [9, 2], [2, 16])], 12) \<and>
   (1::nat) < length [([3, 1], [8, 5], [1, 17]) :: int query, ([4, 1], [9, 2], [2, 16])] \<and>
   snd (snd ([([3, 1], [8, 5], [1, 17]) :: int query, ([4, 1], [9, 2], [2, 16])] ! 1))
     = index_and_sum (int 1 + 1) [4, 1] [9, 2] \<and>
   get_one_query counter_source (Some [BInt 10, BSeq [5]]) (1 / 5) LESS
     (None :: (int \<Rightarrow> int list \<Rightarrow> int list \<Rightarrow> int list) option) 1 (0::nat)
     = Some (Inr ([3, 1], [8, 5], []), 6) \<and>
   snd (snd (([3, 1], [8, 5], []) :: int query)) = []"
proof -
  have a: "(1::nat) < length [([3, 1], [8, 5], [1, 17]) :: int query, ([4, 1], [9, 2], [2, 16])]"
    by simp
  from C7_weights [of counter_source "Some [BInt 10, BSeq [5]]" "1 / 5" ALLOW_EQUAL
      "Some index_and_sum" 1 0 "([3, 1], [8, 5], [1, 17])" 6
      2 "[([3, 1], [8, 5], [1, 17]), ([4, 1], [9, 2], [2, 16])]" 12] counter_run_weighted a
  have "snd (snd ([([3, 1], [8, 5], [1, 17]) :: int query, ([4, 1], [9, 2], [2, 16])] ! 1))
     = (case Some index_and_sum of None \<Rightarrow> []
        | Some wg \<Rightarrow> wg (int 1 + 1)
            (fst ([([3, 1], [8, 5], [1, 17]) :: int query, ([4, 1], [9, 2], [2, 16])] ! 1))
            (fst (snd ([([3, 1], [8, 5], [1, 17]) :: int query, ([4, 1], [9, 2], [2, 16])] ! 1))))"
    by blast
  then have "snd (snd ([([3, 1], [8, 5], [1, 17]) :: int query, ([4, 1], [9, 2], [2, 16])] ! 1))
     = index_and_sum (int 1 + 1) [4, 1] [9, 2]"
    by simp
  with counter_run_weighted counter_run_one a show ?thesis by simp
qed

subsection \<open>C3: the batch has one query per index, in order\<close>

text \<open>
  C3, amended. A batch that \<open>RangeQuery.random(num, ...)\<close> returns has \<open>max(num, 0)\<close>
  queries, so exactly \<open>num\<close> of them when \<open>num \<ge> 0\<close>; the query at position \<open>k\<close> is the one
  that the call of \<open>get_one_query\<close> with index \<open>k + 1\<close> returned, made from the state the
  first \<open>k\<close> calls left behind, and the first \<open>k\<close> queries are the batch of \<open>random(k, ...)\<close>;
  an integer index reads the query at that position and a slice reads the queries
  between its ends, in order. As stated the claim fails for a negative \<open>num\<close>:
  \<open>range(-1)\<close> is empty, and the batch has no query, not \<open>-1\<close> of them.
\<close>

theorem C3_batch_count_and_order:
  assumes "RangeQuery_random S num position_range mode weight_generator big_query g = Some (Inr qs, g')"
  shows "int (length qs) = max num 0 \<and>
         (\<forall>k. 0 \<le> k \<and> k < num \<longrightarrow>
            getitem_int qs k = Inr (qs ! nat k) \<and>
            (\<exists>g1 g2.
               RangeQuery_random S k position_range mode weight_generator big_query g
                 = Some (Inr (take (nat k) qs), g1) \<and>
               get_one_query S position_range big_query mode weight_generator (k + 1) g1
                 = Some (Inr (qs ! nat k), g2) \<and>
               RangeQuery_random S (k + 1) position_range mode weight_generator big_query g
                 = Some (Inr (take (nat k + 1) qs), g2))) \<and>
         (\<forall>a b. 0 \<le> a \<and> a \<le> b \<and> b \<le> num \<longrightarrow>
            getitem_slice qs (Some a) (Some b) = map ((!) qs) [nat a..<nat b]) \<and>
         getitem_slice qs None None = qs"
proof -
  have len: "length qs = nat num" using assms by (rule RangeQuery_random_length)
  have "getitem_int qs k = Inr (qs ! nat k)" if "0 \<le> k \<and> k < num" for k
    using that len by (simp add: getitem_int_def)
  moreover have "getitem_slice qs (Some a) (Some b) = map ((!) qs) [nat a..<nat b]"
    if "0 \<le> a \<and> a \<le> b \<and> b \<le> num" for a b
  proof -
    have "nat b \<le> length qs" using that len by auto
    then have "take (nat b - nat a) (drop (nat a) qs) = map ((!) qs) [nat a..<nat b]"
      by (rule slice_as_nth)
    moreover have "min (nat a) (length qs) = nat a" "min (nat b) (length qs) = nat b"
      using that len by auto
    ultimately show ?thesis using that
      by (simp add: getitem_slice_def slice_bound_def Let_def)
  qed
  moreover have "getitem_slice qs None None = qs"
    by (simp add: getitem_slice_def slice_bound_def)
  moreover have "int (length qs) = max num 0" using len by simp
  ultimately show ?thesis
    using RangeQuery_random_prefix [OF assms] by blast
qed

theorem C3_negative_num_counterexample:
  "RangeQuery_random counter_source (- 1) (Some [BInt 10]) ALLOW_EQUAL
     (None :: (int \<Rightarrow> int list \<Rightarrow> int list \<Rightarrow> int list) option) (1 / 5) (0::nat) = Some (Inr [], 0) \<and>
   int (length ([] :: int query list)) \<noteq> - 1"
  by (simp add: counter_run)

theorem C3_batch_count_and_order_witness:
  "RangeQuery_random counter_source 2 (Some [BInt 10, BSeq [5]]) ALLOW_EQUAL
     (Some index_and_sum) (1 / 5) (0::nat)
     = Some (Inr [([3, 1], [8, 5], [1, 17]), ([4, 1], [9, 2], [2, 16])], 12) \<and>
   int (length [([3, 1], [8, 5], [1, 17]) :: int query, ([4, 1], [9, 2], [2, 16])]) = max 2 0 \<and>
   ((0::int) \<le> 1 \<and> (1::int) < 2) \<and>
   getitem_int [([3, 1], [8, 5], [1, 17]) :: int query, ([4, 1], [9, 2], [2, 16])] 1
     = Inr ([4, 1], [9, 2], [2, 16]) \<and>
   RangeQuery_random counter_source 1 (Some [BInt 10, BSeq [5]]) ALLOW_EQUAL
     (Some index_and_sum) (1 / 5) (0::nat)
     = Some (Inr [([3, 1], [8, 5], [1, 17])], 6) \<and>
   get_one_query counter_source (Some [BInt 10, BSeq [5]]) (1 / 5) ALLOW_EQUAL
     (Some index_and_sum) 2 (6::nat)
     = Some (Inr ([4, 1], [9, 2], [2, 16]), 12) \<and>
   ((0::int) \<le> 1 \<and> (1::int) \<le> 2 \<and> (2::int) \<le> 2) \<and>
   getitem_slice [([3, 1], [8, 5], [1, 17]) :: int query, ([4, 1], [9, 2], [2, 16])] (Some 1) (Some 2)
     = [([4, 1], [9, 2], [2, 16])]"
proof -
  note c = C3_batch_count_and_order [OF counter_run_weighted]
  have k: "(0::int) \<le> 1 \<and> (1::int) < 2" and ab: "(0::int) \<le> 1 \<and> (1::int) \<le> 2 \<and> (2::int) \<le> 2"
    by simp_all
  from c k have "getitem_int [([3, 1], [8, 5], [1, 17]) :: int query, ([4, 1], [9, 2], [2, 16])] 1
     = Inr ([([3, 1], [8, 5], [1, 17]), ([4, 1], [9, 2], [2, 16])] ! nat 1)"
    by blast
  moreover from c ab have
    "getitem_slice [([3, 1], [8, 5], [1, 17]) :: int query, ([4, 1], [9, 2], [2, 16])] (Some 1) (Some 2)
       = map ((!) [([3, 1], [8, 5], [1, 17]), ([4, 1], [9, 2], [2, 16])]) [nat 1..<nat 2]"
    by blast
  ultimately show ?thesis
    using counter_run_weighted counter_run_weighted_prefix counter_run_weighted_one
    by (simp add: upt_rec)
qed

subsection \<open>C2: when \<open>InvalidRange\<close> is raised\<close>

text \<open>
  C2, amended. For every \<open>num \<ge> 1\<close>, either mode and bounds of the admitted shapes, a call
  of \<open>RangeQuery.random\<close> that raises raises \<open>InvalidRange\<close>, and then some dimension has
  \<open>lo > hi\<close>, or \<open>lo = hi\<close> under \<open>LESS\<close>; conversely, when some dimension is such, a call that
  returns raises \<open>InvalidRange\<close>, and under \<open>ALLOW_EQUAL\<close> every call returns. With the bounds
  \<open>[(5, 4)]\<close> the call always raises, in either mode, and with \<open>[(4, 4)]\<close> it raises under
  \<open>LESS\<close> and returns a batch under \<open>ALLOW_EQUAL\<close>. As stated, for every \<open>num\<close>, the claim
  fails: with \<open>num = 0\<close> the loop makes no call and nothing is raised, whatever the bounds.
\<close>

theorem C2_invalid_range_errors:
  assumes "randint_in_range S" and "1 \<le> num"
    and "list_all well_shaped (default_position_range position_range)"
  shows
    "(\<forall>e g'. RangeQuery_random S num position_range mode weight_generator big_query g = Some (Inl e, g')
        \<longrightarrow> InvalidRange e \<and>
            list_ex (invalid_dimension mode) (default_position_range position_range)) \<and>
     (list_ex (invalid_dimension mode) (default_position_range position_range) \<and>
      RangeQuery_random S num position_range mode weight_generator big_query g \<noteq> None
        \<longrightarrow> (\<exists>e g'. RangeQuery_random S num position_range mode weight_generator big_query g
                       = Some (Inl e, g') \<and> InvalidRange e)) \<and>
     (mode = ALLOW_EQUAL
        \<longrightarrow> RangeQuery_random S num position_range mode weight_generator big_query g \<noteq> None) \<and>
     (position_range = Some [BSeq [5, 4]]
        \<longrightarrow> RangeQuery_random S num position_range mode weight_generator big_query g
              = Some (Inl (ValueError UpperBelowLower), g)) \<and>
     (position_range = Some [BSeq [4, 4]] \<and> mode = LESS
        \<longrightarrow> RangeQuery_random S num position_range mode weight_generator big_query g
              = Some (Inl (ValueError LessModeEqualBounds), g)) \<and>
     (position_range = Some [BSeq [4, 4]] \<and> mode = ALLOW_EQUAL
        \<longrightarrow> (\<exists>qs g'. RangeQuery_random S num position_range mode weight_generator big_query g
                        = Some (Inr qs, g')))"
proof -
  let ?prs = "default_position_range position_range"
  let ?run = "RangeQuery_random S num position_range mode weight_generator big_query g"
  have err: "InvalidRange e \<and> list_ex (invalid_dimension mode) ?prs" if "?run = Some (Inl e, g')" for e g'
  proof -
    from that have "random_loop S position_range mode weight_generator big_query (range_py num) [] g
        = Some (Inl e, g')"
      by (simp add: RangeQuery_random_def)
    from random_loop_error [OF this] obtain i g0 where
      "get_one_query S position_range big_query mode weight_generator i g0 = Some (Inl e, g')"
      by blast
    from get_one_query_InvalidRange [OF assms(1,3) this] show ?thesis .
  qed
  have ok: "\<not> list_ex (invalid_dimension mode) ?prs" if "?run = Some (Inr qs, g')" for qs g'
  proof -
    from that have "random_loop S position_range mode weight_generator big_query (0 # [1..num - 1]) [] g
        = Some (Inr qs, g')"
      by (simp add: RangeQuery_random_def range_py_positive [OF assms(2)])
    from random_loop_success [OF this] obtain q g1 where
      "get_one_query S position_range big_query mode weight_generator (0 + 1) g = Some (Inr q, g1)"
      by blast
    from get_one_query_success [OF this] obtain res where
      "dimension_loop S mode big_query ?prs [] [] g = Some (Inr res, g1)" by blast
    from dimension_loop_success [OF this] show ?thesis by (simp add: list_ex_iff)
  qed
  have conv: "\<exists>e g'. ?run = Some (Inl e, g') \<and> InvalidRange e"
    if i: "list_ex (invalid_dimension mode) ?prs" and r: "?run \<noteq> None"
  proof -
    from r obtain res g' where rg: "?run = Some (res, g')" by auto
    show ?thesis
    proof (cases res)
      case (Inl e)
      with rg err [of e g'] show ?thesis by auto
    next
      case (Inr qs)
      with rg ok [of qs g'] i show ?thesis by simp
    qed
  qed
  have returns: "?run \<noteq> None" if "mode = ALLOW_EQUAL"
    using random_loop_allow_equal_Some [of S position_range weight_generator big_query "range_py num" "[]" g] that
    by (auto simp: RangeQuery_random_def)
  have a: "?run = Some (Inl (ValueError UpperBelowLower), g)" if "position_range = Some [BSeq [5, 4]]"
    by (rule RangeQuery_random_first_invalid [OF assms(2), of _ "BSeq [5, 4]" "[]" "(5, 4)"])
       (simp_all add: that default_position_range_def validate_def)
  have b: "?run = Some (Inl (ValueError LessModeEqualBounds), g)"
    if "position_range = Some [BSeq [4, 4]] \<and> mode = LESS"
    by (rule RangeQuery_random_first_invalid [OF assms(2), of _ "BSeq [4, 4]" "[]" "(4, 4)"])
       (simp_all add: that default_position_range_def validate_def)
  have c: "\<exists>qs g'. ?run = Some (Inr qs, g')"
    if p: "position_range = Some [BSeq [4, 4]] \<and> mode = ALLOW_EQUAL"
  proof -
    from returns p obtain res g' where rg: "?run = Some (res, g')" by auto
    have ni: "\<not> list_ex (invalid_dimension mode) ?prs"
      using p by (simp add: default_position_range_def invalid_dimension_def)
    show ?thesis
    proof (cases res)
      case (Inl e)
      with rg err [of e g'] ni show ?thesis by simp
    next
      case (Inr qs)
      with rg show ?thesis by simp
    qed
  qed
  from err conv returns a b c show ?thesis by blast
qed

theorem C2_zero_num_counterexample:
  "RangeQuery_random counter_source 0 (Some [BSeq [5, 4]]) ALLOW_EQUAL
     (None :: (int \<Rightarrow> int list \<Rightarrow> int list \<Rightarrow> int list) option) (1 / 5) (0::nat) = Some (Inr [], 0) \<and>
   list_ex (invalid_dimension ALLOW_EQUAL) [BSeq [5, 4]]"
  by (simp add: counter_run invalid_dimension_def)

theorem C2_invalid_range_errors_witness:
  "randint_in_range counter_source \<and> (1::int) \<le> 2 \<and>
   list_all well_shaped (default_position_range (Some [BInt 10, BSeq [5, 4]])) \<and>
   RangeQuery_random counter_source 2 (Some [BInt 10, BSeq [5, 4]]) LESS
     (None :: (int \<Rightarrow> int list \<Rightarrow> int list \<Rightarrow> int list) option) (1 / 5) (0::nat)
     = Some (Inl (ValueError UpperBelowLower), 3) \<and>
   InvalidRange (ValueError UpperBelowLower) \<and>
   list_ex (invalid_dimension LESS) (default_position_range (Some [BInt 10, BSeq [5, 4]])) \<and>
   list_all well_shaped (default_position_range (Some [BSeq [4, 4]])) \<and>
   RangeQuery_random counter_source 2 (Some [BSeq [4, 4]]) ALLOW_EQUAL
     (None :: (int \<Rightarrow> int list \<Rightarrow> int list \<Rightarrow> int list) option) (1 / 5) (0::nat)
     = Some (Inr [([4], [4], []), ([4], [4], [])], 6) \<and>
   RangeQuery_random counter_source 2 (Some [BSeq [4, 4]]) LESS
     (None :: (int \<Rightarrow> int list \<Rightarrow> int list \<Rightarrow> int list) option) (1 / 5) (0::nat)
     = Some (Inl (ValueError LessModeEqualBounds), 0)"
proof -
  have n: "(1::int) \<le> 2" by simp
  have w1: "list_all well_shaped (default_position_range (Some [BInt 10, BSeq [5, 4]]))"
    and w2: "list_all well_shaped (default_position_range (Some [BSeq [4, 4]]))"
    by (simp_all add: default_position_range_def well_shaped_def)
  from C2_invalid_range_errors [OF counter_source_in_range n w1, of LESS None "1 / 5" 0]
    counter_run_invalid_second
  have a: "InvalidRange (ValueError UpperBelowLower) \<and>
     list_ex (invalid_dimension LESS) (default_position_range (Some [BInt 10, BSeq [5, 4]]))"
    by blast
  from C2_invalid_range_errors [OF counter_source_in_range n w2, of LESS
      "None :: (int \<Rightarrow> int list \<Rightarrow> int list \<Rightarrow> int list) option" "1 / 5" 0]
  have b: "RangeQuery_random counter_source 2 (Some [BSeq [4, 4]]) LESS
     (None :: (int \<Rightarrow> int list \<Rightarrow> int list \<Rightarrow> int list) option) (1 / 5) (0::nat)
     = Some (Inl (ValueError LessModeEqualBounds), 0)"
    by blast
  from counter_source_in_range n w1 w2 counter_run_invalid_second counter_run_degenerate a b
  show ?thesis by blast
qed

subsection \<open>C4: the state of the random source at the error\<close>

text \<open>
  C4, amended. When \<open>get_one_query\<close> raises \<open>InvalidRange\<close>, it does so at the first
  dimension whose bounds are invalid, before any draw for that dimension and after the
  draws of the dimensions before it: the random source is in the state that sampling
  those dimensions left, which is the state at entry when the first dimension is the
  invalid one; no query is returned. As stated the claim fails: with the bounds
  \<open>[10, (5, 4)]\<close> the first dimension is sampled before the second one is rejected, and
  the random source has moved.
\<close>

theorem C4_error_at_first_invalid_dimension:
  assumes "randint_in_range S"
    and "get_one_query S position_range big_query mode weight_generator index g = Some (Inl e, g')"
    and "InvalidRange e"
  shows "\<exists>k < length (default_position_range position_range).
           invalid_dimension mode (default_position_range position_range ! k) \<and>
           (\<forall>j < k. \<not> invalid_dimension mode (default_position_range position_range ! j)) \<and>
           (\<exists>ql qr. dimension_loop S mode big_query (take k (default_position_range position_range))
                       [] [] g = Some (Inr (ql, qr), g')) \<and>
           (k = 0 \<longrightarrow> g' = g)"
proof -
  let ?prs = "default_position_range position_range"
  from assms(2) have "dimension_loop S mode big_query ?prs [] [] g = Some (Inl e, g')"
    by (simp add: get_one_query_error)
  from dimension_loop_error [OF this assms(1)] obtain k ql qr where
    k: "k < length ?prs"
       "cur_range (?prs ! k) = Inl e \<or> (\<exists>cr. cur_range (?prs ! k) = Inr cr \<and> validate mode cr = Some e)"
       "dimension_loop S mode big_query (take k ?prs) [] [] g = Some (Inr (ql, qr), g')"
    by blast
  have "cur_range (?prs ! k) \<noteq> Inl e"
    using assms(3) cur_range_Inl [of "?prs ! k" e] by (auto simp: InvalidRange_def)
  with k(2) have inv: "invalid_dimension mode (?prs ! k)"
    by (auto simp: invalid_dimension_validate)
  have before: "\<forall>j < k. \<not> invalid_dimension mode (?prs ! j)"
  proof (intro allI impI)
    fix j assume j: "j < k"
    then have "?prs ! j \<in> set (take k ?prs)"
      using k(1) by (auto simp: in_set_conv_nth intro!: exI [of _ j])
    with dimension_loop_success [OF k(3)] show "\<not> invalid_dimension mode (?prs ! j)" by blast
  qed
  have "g' = g" if "k = 0" using k(3) that by simp
  with k(1,3) inv before show ?thesis by blast
qed

theorem C4_draws_before_error_counterexample:
  "get_one_query counter_source (Some [BInt 10, BSeq [5, 4]]) (1 / 5) ALLOW_EQUAL
     (None :: (int \<Rightarrow> int list \<Rightarrow> int list \<Rightarrow> int list) option) 1 (0::nat)
     = Some (Inl (ValueError UpperBelowLower), 3) \<and>
   InvalidRange (ValueError UpperBelowLower) \<and> (3::nat) \<noteq> 0"
  by (simp add: counter_run InvalidRange_def)

theorem C4_error_at_first_invalid_dimension_witness:
  "randint_in_range counter_source \<and>
   get_one_query counter_source (Some [BInt 10, BSeq [5, 4]]) (1 / 5) ALLOW_EQUAL
     (None :: (int \<Rightarrow> int list \<Rightarrow> int list \<Rightarrow> int list) option) 1 (0::nat)
     = Some (Inl (ValueError UpperBelowLower), 3) \<and>
   InvalidRange (ValueError UpperBelowLower) \<and>
   (\<exists>k < length (default_position_range (Some [BInt 10, BSeq [5, 4]])).
      invalid_dimension ALLOW_EQUAL (default_position_range (Some [BInt 10, BSeq [5, 4]]) ! k) \<and>
      (\<forall>j < k. \<not> invalid_dimension ALLOW_EQUAL (default_position_range (Some [BInt 10, BSeq [5, 4]]) ! j)) \<and>
      (\<exists>ql qr. dimension_loop counter_source ALLOW_EQUAL (1 / 5)
                  (take k (default_position_range (Some [BInt 10, BSeq [5, 4]]))) [] [] (0::nat)
                = Some (Inr (ql, qr), 3)) \<and>
      (k = 0 \<longrightarrow> (3::nat) = 0)) \<and>
   dimension_loop counter_source ALLOW_EQUAL (1 / 5) [BInt 10] [] [] (0::nat) = Some (Inr ([3], [8]), 3)"
proof -
  have i: "InvalidRange (ValueError UpperBelowLower)" by (simp add: InvalidRange_def)
  have d: "dimension_loop counter_source ALLOW_EQUAL (1 / 5) [BInt 10] [] [] (0::nat)
      = Some (Inr ([3], [8]), 3)"
    by (simp add: counter_run)
  from C4_error_at_first_invalid_dimension [OF counter_source_in_range counter_run_one_invalid_second i]
    counter_source_in_range counter_run_one_invalid_second i d
  show ?thesis by blast
qed

end
